theory Spec2Isabelle
  imports Main "HOL-Library.Multiset"
begin

section \<open>Errors\<close>

text \<open>
  Go's \<^verbatim>\<open>error\<close> values, as far as the three source files build or pass them on.
  \<^verbatim>\<open>AsError\<close> and \<^verbatim>\<open>NewLeveledException\<close> are constructors of the package whose
  bodies are defined elsewhere in the package; they are kept as uninterpreted constructors
  (of a message, or of the error they wrap). \<open>SysError\<close> stands for an error of the
  operating system (a failed write, sync or open) and \<open>ForeignError\<close> for any error a
  collaborator (a child logger, a renderer, the JSON encoder) returns.
\<close>

datatype Level = EnumCritical | EnumError | EnumOpsError | EnumWarning | EnumInfo | EnumDebug

datatype error =
    AsError string
  | AsErrorOf error
  | NewLeveledException string Level
  | SysError string
  | ForeignError string

section \<open>The file handle\<close>

text \<open>
  An \<^verbatim>\<open>*os.File\<close> opened for appending. \<open>history\<close> lists the operations that went
  through, oldest first; \<open>faults\<close> is what the operating system has in store for the
  next operations on the handle: \<open>Some e\<close> makes the next write or sync fail with \<open>e\<close>,
  \<open>None\<close> lets it through, and once the list is used up every operation succeeds.
  A write that fails transfers no byte.
\<close>

datatype file_op = Write string | Sync

record os_File =
  history :: "file_op list"
  faults :: "error option list"

definition next_outcome :: "os_File \<Rightarrow> error option \<times> os_File" where
  "next_outcome f =
     (case faults f of
        [] \<Rightarrow> (None, f)
      | r # rs \<Rightarrow> (r, f\<lparr>faults := rs\<rparr>))"

definition File_Write :: "os_File \<Rightarrow> string \<Rightarrow> error option \<times> os_File" where
  "File_Write f b =
     (case next_outcome f of
        (None, f') \<Rightarrow> (None, f'\<lparr>history := history f' @ [Write b]\<rparr>)
      | (Some e, f') \<Rightarrow> (Some e, f'))"

definition File_Sync :: "os_File \<Rightarrow> error option \<times> os_File" where
  "File_Sync f =
     (case next_outcome f of
        (None, f') \<Rightarrow> (None, f'\<lparr>history := history f' @ [Sync]\<rparr>)
      | (Some e, f') \<Rightarrow> (Some e, f'))"

text \<open>The bytes of the file, as far as this handle wrote them.\<close>

fun written :: "file_op \<Rightarrow> string" where
  "written (Write b) = b"
| "written Sync = []"

definition content :: "os_File \<Rightarrow> string" where
  "content f = concat (map written (history f))"

section \<open>Events and their capabilities\<close>

text \<open>
  \<^verbatim>\<open>type logFunction func(writer io.Writer) error\<close>: the writer is always the logger's
  file, so a log function is a state transformer of the file that returns an error or
  \<^verbatim>\<open>nil\<close>.

  A value that implements \<^verbatim>\<open>error\<close> has its message (\<^verbatim>\<open>Error()\<close>) and may have the
  methods \<^verbatim>\<open>Log\<close>, \<^verbatim>\<open>LogNoStack\<close> and \<^verbatim>\<open>LogAsJson\<close> (\<open>None\<close>: its type has no such
  method). The three interface checks of the source follow the interfaces' method sets.
\<close>

type_synonym logFunction = "os_File \<Rightarrow> error option \<times> os_File"

record go_error =
  Error :: string
  Log_impl :: "logFunction option"
  LogNoStack_impl :: "logFunction option"
  LogAsJson_impl :: "logFunction option"

definition as_Loggable :: "go_error \<Rightarrow> logFunction option" where
  "as_Loggable e = Log_impl e"

definition as_LoggableWithNoStackOption :: "go_error \<Rightarrow> logFunction option" where
  "as_LoggableWithNoStackOption e =
     (case Log_impl e of None \<Rightarrow> None | Some _ \<Rightarrow> LogNoStack_impl e)"

definition as_JsonLoggable :: "go_error \<Rightarrow> logFunction option" where
  "as_JsonLoggable e = LogAsJson_impl e"

text \<open>
  An argument of \<^verbatim>\<open>Log(errorsToLog ...interface{})\<close>: \<open>None\<close> is \<^verbatim>\<open>nil\<close>, otherwise an
  error value, or a value of any other type, of which the code only uses its
  \<^verbatim>\<open>fmt.Sprintf("%v", impl)\<close> rendering.
\<close>

datatype iface = ErrorValue go_error | OtherValue string

section \<open>FileLogger\<close>

text \<open>
  The mutex makes each call one critical section; the model runs a call as one step, so
  the lock itself has no field. Everything a call does to the file between
  \<^verbatim>\<open>Lock\<close> and the deferred \<^verbatim>\<open>Unlock\<close> is in the file's history when the call returns.
\<close>

text \<open>The field \<^verbatim>\<open>file\<close> is \<open>file'\<close> here, \<open>file\<close> being a keyword.\<close>

record FileLogger =
  logFilePath :: string
  file' :: os_File

text \<open>
  \<^verbatim>\<open>openFile\<close> asks the operating system; the file system is a parameter, \<open>fs\<close>, that
  says for each name whether the open fails or which handle it gives.
\<close>

definition NewFileLogger :: "(string \<Rightarrow> error + os_File) \<Rightarrow> string \<Rightarrow> error + FileLogger" where
  "NewFileLogger fs path =
     (case fs path of
        Inl err \<Rightarrow> Inl (AsErrorOf err)
      | Inr fl \<Rightarrow> Inr \<lparr>logFilePath = path, file' = fl\<rparr>)"

text \<open>The private helpers only touch \<^verbatim>\<open>l.file\<close>: they are given the file.\<close>

definition log :: "logFunction \<Rightarrow> os_File \<Rightarrow> error option \<times> os_File" where
  "log logFunc f =
     (case logFunc f of
        (Some err, f') \<Rightarrow> (Some err, f')
      | (None, f') \<Rightarrow>
          (case File_Sync f' of
             (Some err, f'') \<Rightarrow> (Some err, f'')
           | (None, f'') \<Rightarrow> (None, f'')))"

text \<open>\<open>now\<close> is \<^verbatim>\<open>time.Now().In(Location).Format(timeFmt)\<close>, read when the function runs.\<close>

definition logNonSherlogError :: "string \<Rightarrow> go_error \<Rightarrow> os_File \<Rightarrow> error option \<times> os_File" where
  "logNonSherlogError now errToLog f =
     (case File_Write f now of
        (Some err, f1) \<Rightarrow> (Some err, f1)
      | (None, f1) \<Rightarrow>
          (case File_Write f1 '' - '' of
             (Some err, f2) \<Rightarrow> (Some err, f2)
           | (None, f2) \<Rightarrow> File_Write f2 (Error errToLog)))"

text \<open>
  The end of the loop body of \<open>Log\<close>: \<^verbatim>\<open>if i < len(errorsToLog)-1\<close>, that is when events
  remain, the separator is written; the result of that write is dropped.
\<close>

definition write_caused_by :: "'a list \<Rightarrow> os_File \<Rightarrow> os_File" where
  "write_caused_by remaining f =
     (if remaining \<noteq> [] then snd (File_Write f ''\<newline>Caused by:\<newline>'') else f)"

text \<open>
  The loop of \<open>Log\<close> from position \<open>i\<close> on. \<open>clock i\<close> is the formatted time at which the
  event at position \<open>i\<close> is rendered.
\<close>

fun Log_range ::
  "(nat \<Rightarrow> string) \<Rightarrow> nat \<Rightarrow> iface option list \<Rightarrow> os_File \<Rightarrow> error option \<times> os_File" where
  "Log_range clock i [] f = (None, f)"
| "Log_range clock i (errToLog # remaining) f =
     (case errToLog of
        None \<Rightarrow> (Some (AsError ''tried to log nil error''), f)
      | Some (ErrorValue impl) \<Rightarrow>
          (case as_Loggable impl of
             Some logFunc \<Rightarrow>
               (case log logFunc f of
                  (Some err, f') \<Rightarrow> (Some (AsErrorOf err), f')
                | (None, f') \<Rightarrow> Log_range clock (Suc i) remaining (write_caused_by remaining f'))
           | None \<Rightarrow>
               (case logNonSherlogError (clock i) impl f of
                  (Some err, f') \<Rightarrow> (Some (AsErrorOf err), f')
                | (None, f') \<Rightarrow> Log_range clock (Suc i) remaining (write_caused_by remaining f')))
      | Some (OtherValue v) \<Rightarrow>
          Log_range clock (Suc i) remaining (write_caused_by remaining (snd (File_Write f v))))"

text \<open>
  The deferred function runs on every return after the lock was taken: it writes the
  terminator, dropping the result of the write, and unlocks.
\<close>

definition FileLogger_Log ::
  "(nat \<Rightarrow> string) \<Rightarrow> iface option list \<Rightarrow> FileLogger \<Rightarrow> error option \<times> FileLogger" where
  "FileLogger_Log clock errorsToLog l =
     (if length errorsToLog < 1 then (Some (AsError ''no parameters provided to Log''), l)
      else
        (case Log_range clock 0 errorsToLog (file' l) of
           (r, f) \<Rightarrow> (r, l\<lparr>file' := snd (File_Write f ''\<newline>\<newline>'')\<rparr>)))"

definition FileLogger_LogNoStack ::
  "string \<Rightarrow> go_error option \<Rightarrow> FileLogger \<Rightarrow> error option \<times> FileLogger" where
  "FileLogger_LogNoStack now errToLog l =
     (case errToLog of
        None \<Rightarrow> (Some (AsError ''tried to log nil error''), l)
      | Some e \<Rightarrow>
          (case (case as_LoggableWithNoStackOption e of
                   Some logFunc \<Rightarrow> log logFunc (file' l)
                 | None \<Rightarrow> logNonSherlogError now e (file' l)) of
             (r, f) \<Rightarrow> (r, l\<lparr>file' := snd (File_Write f ''\<newline>\<newline>'')\<rparr>)))"

text \<open>
  The fallback of \<open>LogJson\<close> (the lines after \<^verbatim>\<open>// Else, manually extract info...\<close>).
  \<^verbatim>\<open>json.Marshal\<close> belongs to the standard library: \<open>json_Marshal\<close> is a parameter that
  gives, for the values of the keys \<^verbatim>\<open>Time\<close> and \<^verbatim>\<open>Message\<close>, the bytes or the error.
\<close>

definition LogJson_fallback ::
  "(string \<Rightarrow> string \<Rightarrow> error + string) \<Rightarrow> string \<Rightarrow> go_error \<Rightarrow> os_File \<Rightarrow>
   error option \<times> os_File" where
  "LogJson_fallback json_Marshal now errToLog f =
     (case json_Marshal now (Error errToLog) of
        Inl err \<Rightarrow> (Some err, f)
      | Inr jsonBytes \<Rightarrow> File_Write f jsonBytes)"

definition FileLogger_LogJson ::
  "(string \<Rightarrow> string \<Rightarrow> error + string) \<Rightarrow> string \<Rightarrow> go_error option \<Rightarrow> FileLogger \<Rightarrow>
   error option \<times> FileLogger" where
  "FileLogger_LogJson json_Marshal now errToLog l =
     (case errToLog of
        None \<Rightarrow> (Some (AsError ''tried to log nil error''), l)
      | Some e \<Rightarrow>
          (case (case as_JsonLoggable e of
                   Some logFunc \<Rightarrow> log logFunc (file' l)
                 | None \<Rightarrow> LogJson_fallback json_Marshal now e (file' l)) of
             (r, f) \<Rightarrow> (r, l\<lparr>file' := snd (File_Write f ''\<newline>'')\<rparr>)))"

section \<open>SizeBasedRollingFileLogger\<close>

text \<open>
  \<^verbatim>\<open>RollingFileLogger\<close> is declared elsewhere in the package; the composite literal
  of the constructor shows its two fields. Its methods \<^verbatim>\<open>Log\<close>, \<^verbatim>\<open>LogNoStack\<close>,
  \<^verbatim>\<open>LogJson\<close> and \<^verbatim>\<open>roll\<close>, which the code below calls, are parameters: any state
  transformers of the embedded logger that return an error or \<^verbatim>\<open>nil\<close>.
\<close>

record RollingFileLogger =
  embedded_FileLogger :: FileLogger
  baseFilePath :: string

record RollingFileLogger_methods =
  rolling_Log :: "go_error option \<Rightarrow> RollingFileLogger \<Rightarrow> error option \<times> RollingFileLogger"
  rolling_LogNoStack :: "go_error option \<Rightarrow> RollingFileLogger \<Rightarrow> error option \<times> RollingFileLogger"
  rolling_LogJson :: "go_error option \<Rightarrow> RollingFileLogger \<Rightarrow> error option \<times> RollingFileLogger"
  rolling_roll :: "RollingFileLogger \<Rightarrow> error option \<times> RollingFileLogger"

text \<open>
  The counters are Go \<^verbatim>\<open>int\<close>s, 64 bits wide: \<open>int64\<close> is the value an integer wraps
  around to.
\<close>

record SizeBasedRollingFileLogger =
  embedded_RollingFileLogger :: RollingFileLogger
  countToRollOn :: int
  curCount :: int

definition int64 :: "int \<Rightarrow> int" where
  "int64 x = (x + 2 ^ 63) mod 2 ^ 64 - 2 ^ 63"

text \<open>
  \<^verbatim>\<open>getTimestampedFileName\<close> is defined elsewhere too: the parameter \<open>stamped\<close> is the name
  it gives for a base path.
\<close>

definition NewRollingFileLoggerWithSizeLimit ::
  "(string \<Rightarrow> string) \<Rightarrow> (string \<Rightarrow> error + os_File) \<Rightarrow> string \<Rightarrow> int \<Rightarrow>
   error + SizeBasedRollingFileLogger" where
  "NewRollingFileLoggerWithSizeLimit stamped fs path numMessagesPerFile =
     (if numMessagesPerFile \<le> 0
      then Inl (NewLeveledException ''log files must have room for at least 1 message.'' EnumError)
      else
        (case NewFileLogger fs (stamped path) of
           Inl err \<Rightarrow> Inl err
         | Inr fileLogger \<Rightarrow>
             Inr \<lparr>embedded_RollingFileLogger =
                    \<lparr>embedded_FileLogger = fileLogger, baseFilePath = path\<rparr>,
                  countToRollOn = numMessagesPerFile,
                  curCount = 0\<rparr>))"

definition roll ::
  "RollingFileLogger_methods \<Rightarrow> SizeBasedRollingFileLogger \<Rightarrow>
   error option \<times> SizeBasedRollingFileLogger" where
  "roll M rfl =
     (case rolling_roll M (embedded_RollingFileLogger rfl) of
        (err, r') \<Rightarrow> (err, rfl\<lparr>embedded_RollingFileLogger := r', curCount := 0\<rparr>))"

definition incAndRollIfNecessary ::
  "RollingFileLogger_methods \<Rightarrow> SizeBasedRollingFileLogger \<Rightarrow>
   error option \<times> SizeBasedRollingFileLogger" where
  "incAndRollIfNecessary M rfl =
     (let rfl' = rfl\<lparr>curCount := int64 (curCount rfl + 1)\<rparr>
      in if curCount rfl' \<ge> countToRollOn rfl' then roll M rfl' else (None, rfl'))"

definition SizeBasedRollingFileLogger_Log ::
  "RollingFileLogger_methods \<Rightarrow> go_error option \<Rightarrow> SizeBasedRollingFileLogger \<Rightarrow>
   error option \<times> SizeBasedRollingFileLogger" where
  "SizeBasedRollingFileLogger_Log M errToLog rfl =
     (case rolling_Log M errToLog (embedded_RollingFileLogger rfl) of
        (Some err, r') \<Rightarrow> (Some err, rfl\<lparr>embedded_RollingFileLogger := r'\<rparr>)
      | (None, r') \<Rightarrow> incAndRollIfNecessary M (rfl\<lparr>embedded_RollingFileLogger := r'\<rparr>))"

definition SizeBasedRollingFileLogger_LogNoStack ::
  "RollingFileLogger_methods \<Rightarrow> go_error option \<Rightarrow> SizeBasedRollingFileLogger \<Rightarrow>
   error option \<times> SizeBasedRollingFileLogger" where
  "SizeBasedRollingFileLogger_LogNoStack M errToLog rfl =
     (case rolling_LogNoStack M errToLog (embedded_RollingFileLogger rfl) of
        (Some err, r') \<Rightarrow> (Some err, rfl\<lparr>embedded_RollingFileLogger := r'\<rparr>)
      | (None, r') \<Rightarrow> incAndRollIfNecessary M (rfl\<lparr>embedded_RollingFileLogger := r'\<rparr>))"

definition SizeBasedRollingFileLogger_LogJson ::
  "RollingFileLogger_methods \<Rightarrow> go_error option \<Rightarrow> SizeBasedRollingFileLogger \<Rightarrow>
   error option \<times> SizeBasedRollingFileLogger" where
  "SizeBasedRollingFileLogger_LogJson M errToLog rfl =
     (case rolling_LogJson M errToLog (embedded_RollingFileLogger rfl) of
        (Some err, r') \<Rightarrow> (Some err, rfl\<lparr>embedded_RollingFileLogger := r'\<rparr>)
      | (None, r') \<Rightarrow> incAndRollIfNecessary M (rfl\<lparr>embedded_RollingFileLogger := r'\<rparr>))"

section \<open>PolyLogger: the fan-out composite\<close>

text \<open>
  A child of the composite is a value of the interface \<^verbatim>\<open>Logger\<close>: an object (its current
  state, \<open>obj\<close>) together with the methods of its dynamic type. A method takes the event
  and the object's state and returns the error (\<open>None\<close> is \<^verbatim>\<open>nil\<close>) and the new state.
  The declaration of \<^verbatim>\<open>RobustLogger\<close> is made elsewhere in the package, so the outcome of
  the type assertion \<^verbatim>\<open>logger.(RobustLogger)\<close> is a field of the child, \<open>isRobust\<close>.
  Children are distinct objects: each owns its state.
\<close>

record ('ev, 's) Logger =
  isRobust :: bool
  Log_method :: "'ev \<Rightarrow> 's \<Rightarrow> error option \<times> 's"
  LogNoStack_method :: "'ev \<Rightarrow> 's \<Rightarrow> error option \<times> 's"
  LogJson_method :: "'ev \<Rightarrow> 's \<Rightarrow> error option \<times> 's"
  obj :: 's

text \<open>
  \<^verbatim>\<open>handleLoggerFail\<close> is a \<^verbatim>\<open>func(error)\<close> or \<^verbatim>\<open>nil\<close>; whatever it does, it does to
  a world \<open>'w\<close> outside the composite (the default prints the error on the standard
  logger's stream). The wait group is the join of the goroutines, see \<open>waitGroup_Wait\<close>.
\<close>

record ('ev, 's, 'w) PolyLogger =
  Loggers :: "('ev, 's) Logger list"
  handleLoggerFail :: "(error \<Rightarrow> 'w \<Rightarrow> 'w) option"

definition defaultHandleLoggerFail :: "error \<Rightarrow> error list \<Rightarrow> error list" where
  "defaultHandleLoggerFail err printed = printed @ [err]"

definition NewPolyLoggerWithHandleLoggerFail ::
  "('ev, 's) Logger list \<Rightarrow> (error \<Rightarrow> 'w \<Rightarrow> 'w) option \<Rightarrow> ('ev, 's, 'w) PolyLogger" where
  "NewPolyLoggerWithHandleLoggerFail loggers h = \<lparr>Loggers = loggers, handleLoggerFail = h\<rparr>"

definition NewPolyLogger :: "('ev, 's) Logger list \<Rightarrow> ('ev, 's, error list) PolyLogger" where
  "NewPolyLogger loggers = NewPolyLoggerWithHandleLoggerFail loggers (Some defaultHandleLoggerFail)"

text \<open>
  A goroutine started by \<^verbatim>\<open>go p.runLoggerWithFail(logger.Log, errToLog)\<close> is the pair of
  the child's position in \<open>Loggers\<close> and the bound method. \<open>runLoggerWithFail\<close> runs it:
  the method on the child's state, then the handler when the method returned an error
  and a handler is set.
\<close>

type_synonym ('ev, 's) goroutine = "nat \<times> ('ev \<Rightarrow> 's \<Rightarrow> error option \<times> 's)"

definition runLoggerWithFail ::
  "('ev, 's, 'w) PolyLogger \<Rightarrow> ('ev, 's) goroutine \<Rightarrow> 'ev \<Rightarrow>
   ('ev, 's) Logger list \<times> 'w \<Rightarrow> ('ev, 's) Logger list \<times> 'w" where
  "runLoggerWithFail p g loggable st =
     (case g of (i, logFunc) \<Rightarrow>
      case st of (ls, w) \<Rightarrow>
      case logFunc loggable (obj (ls ! i)) of (err, s') \<Rightarrow>
        (ls[i := (ls ! i)\<lparr>obj := s'\<rparr>],
         (case err of
            None \<Rightarrow> w
          | Some e \<Rightarrow> (case handleLoggerFail p of None \<Rightarrow> w | Some h \<Rightarrow> h e w))))"

text \<open>
  The goroutines run concurrently; the runtime decides in which order they get to run.
  \<open>goroutine_order sched gs\<close> is that order: at each step the next number of \<open>sched\<close>
  picks one of the goroutines still pending (modulo their number); when \<open>sched\<close> is
  used up the rest run in the order they were started. Every goroutine runs exactly
  once whatever \<open>sched\<close> is, which is what \<^verbatim>\<open>waitGroup.Wait()\<close> waits for.
\<close>

function goroutine_order :: "nat list \<Rightarrow> 'a list \<Rightarrow> 'a list" where
  "goroutine_order sched [] = []"
| "goroutine_order [] (g # gs) = g # gs"
| "goroutine_order (c # cs) (g # gs) =
     (let k = c mod length (g # gs)
      in (g # gs) ! k # goroutine_order cs (take k (g # gs) @ drop (Suc k) (g # gs)))"
  by pat_completeness auto
termination
  by (relation "measure (\<lambda>(sched, gs). length gs)") auto

definition waitGroup_Wait ::
  "('ev, 's, 'w) PolyLogger \<Rightarrow> nat list \<Rightarrow> ('ev, 's) goroutine list \<Rightarrow> 'ev \<Rightarrow>
   ('ev, 's) Logger list \<times> 'w \<Rightarrow> ('ev, 's) Logger list \<times> 'w" where
  "waitGroup_Wait p sched gs loggable st =
     foldl (\<lambda>st g. runLoggerWithFail p g loggable st) st (goroutine_order sched gs)"

text \<open>The positions of the children that pass the type assertion.\<close>

definition robust_positions :: "('ev, 's) Logger list \<Rightarrow> nat list" where
  "robust_positions ls = filter (\<lambda>i. isRobust (ls ! i)) [0..<length ls]"

text \<open>
  The three operations: the loop starts one goroutine per child (per robust child for
  the last two), the wait group joins them, and the result is \<^verbatim>\<open>nil\<close>. The result is
  the returned error, the composite with its children's new states, and the world the
  handler acted on.
\<close>

definition PolyLogger_Log ::
  "('ev, 's, 'w) PolyLogger \<Rightarrow> nat list \<Rightarrow> 'ev \<Rightarrow> 'w \<Rightarrow>
   error option \<times> ('ev, 's, 'w) PolyLogger \<times> 'w" where
  "PolyLogger_Log p sched errToLog w =
     (let gs = map (\<lambda>i. (i, Log_method (Loggers p ! i))) [0..<length (Loggers p)];
          (ls, w') = waitGroup_Wait p sched gs errToLog (Loggers p, w)
      in (None, p\<lparr>Loggers := ls\<rparr>, w'))"

definition PolyLogger_LogNoStack ::
  "('ev, 's, 'w) PolyLogger \<Rightarrow> nat list \<Rightarrow> 'ev \<Rightarrow> 'w \<Rightarrow>
   error option \<times> ('ev, 's, 'w) PolyLogger \<times> 'w" where
  "PolyLogger_LogNoStack p sched errToLog w =
     (let gs = map (\<lambda>i. (i, LogNoStack_method (Loggers p ! i))) (robust_positions (Loggers p));
          (ls, w') = waitGroup_Wait p sched gs errToLog (Loggers p, w)
      in (None, p\<lparr>Loggers := ls\<rparr>, w'))"

definition PolyLogger_LogJson ::
  "('ev, 's, 'w) PolyLogger \<Rightarrow> nat list \<Rightarrow> 'ev \<Rightarrow> 'w \<Rightarrow>
   error option \<times> ('ev, 's, 'w) PolyLogger \<times> 'w" where
  "PolyLogger_LogJson p sched errToLog w =
     (let gs = map (\<lambda>i. (i, LogJson_method (Loggers p ! i))) (robust_positions (Loggers p));
          (ls, w') = waitGroup_Wait p sched gs errToLog (Loggers p, w)
      in (None, p\<lparr>Loggers := ls\<rparr>, w'))"

text \<open>
  What the handler call of \<open>runLoggerWithFail\<close> does to the world for an outcome \<open>err\<close>;
  what a child is after a call of its method \<open>m\<close>, and the error that call returns.
\<close>

definition handled :: "('ev, 's, 'w) PolyLogger \<Rightarrow> 'w \<Rightarrow> error option \<Rightarrow> 'w" where
  "handled p w err =
     (case err of
        None \<Rightarrow> w
      | Some e \<Rightarrow> (case handleLoggerFail p of None \<Rightarrow> w | Some h \<Rightarrow> h e w))"

definition called ::
  "(('ev, 's) Logger \<Rightarrow> 'ev \<Rightarrow> 's \<Rightarrow> error option \<times> 's) \<Rightarrow> 'ev \<Rightarrow> ('ev, 's) Logger \<Rightarrow> ('ev, 's) Logger" where
  "called m ev l = l\<lparr>obj := snd (m l ev (obj l))\<rparr>"

definition outcome ::
  "(('ev, 's) Logger \<Rightarrow> 'ev \<Rightarrow> 's \<Rightarrow> error option \<times> 's) \<Rightarrow> 'ev \<Rightarrow> ('ev, 's) Logger \<Rightarrow> error option" where
  "outcome m ev l = fst (m l ev (obj l))"

text \<open>
  The statement of "dispatched to the robust children only": a call that started in
  composite \<open>p\<close> and world \<open>w\<close> and ended in \<open>(p', w')\<close> called method \<open>m\<close> once on each
  robust child and on no other child, and passed to the handler the outcomes of the
  robust children, each once, in some order.
\<close>

definition dispatched_to_robust_only ::
  "(('ev, 's) Logger \<Rightarrow> 'ev \<Rightarrow> 's \<Rightarrow> error option \<times> 's) \<Rightarrow> ('ev, 's, 'w) PolyLogger \<Rightarrow> 'ev \<Rightarrow> 'w \<Rightarrow>
   ('ev, 's, 'w) PolyLogger \<times> 'w \<Rightarrow> bool" where
  "dispatched_to_robust_only m p ev w res =
     (case res of (p', w') \<Rightarrow>
        length (Loggers p') = length (Loggers p) \<and>
        (\<forall>j<length (Loggers p).
           Loggers p' ! j =
             (if isRobust (Loggers p ! j) then called m ev (Loggers p ! j) else Loggers p ! j)) \<and>
        (\<exists>js. distinct js \<and> set js = {j. j < length (Loggers p) \<and> isRobust (Loggers p ! j)} \<and>
           w' = foldl (handled p) w (map (\<lambda>j. outcome m ev (Loggers p ! j)) js)))"

section \<open>Sequences of calls on the rolling logger\<close>

text \<open>
  A call of one of the three log operations of \<^verbatim>\<open>SizeBasedRollingFileLogger\<close> with its
  argument; \<open>delegate\<close> is the method of the embedded logger the operation starts with,
  \<open>perform\<close> the operation itself, and \<open>perform_all\<close> runs calls one after the other,
  whatever each returns. \<open>count_in_range\<close> is the state between calls: the count is
  not negative and below the threshold, and the threshold is a 64-bit \<^verbatim>\<open>int\<close>.
\<close>

datatype call = CallLog "go_error option" | CallLogNoStack "go_error option" | CallLogJson "go_error option"

fun delegate ::
  "RollingFileLogger_methods \<Rightarrow> call \<Rightarrow> RollingFileLogger \<Rightarrow> error option \<times> RollingFileLogger" where
  "delegate M (CallLog errToLog) = rolling_Log M errToLog"
| "delegate M (CallLogNoStack errToLog) = rolling_LogNoStack M errToLog"
| "delegate M (CallLogJson errToLog) = rolling_LogJson M errToLog"

fun perform ::
  "RollingFileLogger_methods \<Rightarrow> call \<Rightarrow> SizeBasedRollingFileLogger \<Rightarrow>
   error option \<times> SizeBasedRollingFileLogger" where
  "perform M (CallLog errToLog) rfl = SizeBasedRollingFileLogger_Log M errToLog rfl"
| "perform M (CallLogNoStack errToLog) rfl = SizeBasedRollingFileLogger_LogNoStack M errToLog rfl"
| "perform M (CallLogJson errToLog) rfl = SizeBasedRollingFileLogger_LogJson M errToLog rfl"

fun perform_all ::
  "RollingFileLogger_methods \<Rightarrow> call list \<Rightarrow> SizeBasedRollingFileLogger \<Rightarrow>
   SizeBasedRollingFileLogger" where
  "perform_all M [] rfl = rfl"
| "perform_all M (c # cs) rfl = perform_all M cs (snd (perform M c rfl))"

definition count_in_range :: "SizeBasedRollingFileLogger \<Rightarrow> bool" where
  "count_in_range rfl =
     (0 \<le> curCount rfl \<and> curCount rfl < countToRollOn rfl \<and> countToRollOn rfl < 2 ^ 63)"

section \<open>What a call of \<open>Log\<close> is to write\<close>

text \<open>
  \<open>renders logFunc r\<close>: \<open>r\<close> is the rendering the log function writes, that is, on a file
  with no fault in store, whenever the log function returns \<^verbatim>\<open>nil\<close> it has appended
  exactly the bytes \<open>r\<close> and left no fault. \<open>rendered now ev r\<close>: \<open>r\<close> is the rendering of
  the event \<open>ev\<close> at time \<open>now\<close>, namely what its own \<open>Log\<close> writes when it is \<^verbatim>\<open>Loggable\<close>,
  the time, \<^verbatim>\<open>" - "\<close> and the message when it is another error, and its default
  formatting when it is no error at all. \<open>caused_by_joined\<close> joins renderings with the
  separator line.
\<close>

definition renders :: "logFunction \<Rightarrow> string \<Rightarrow> bool" where
  "renders logFunc r =
     (\<forall>f. faults f = [] \<longrightarrow> fst (logFunc f) = None \<longrightarrow>
        faults (snd (logFunc f)) = [] \<and> content (snd (logFunc f)) = content f @ r)"

definition rendered :: "string \<Rightarrow> iface option \<Rightarrow> string \<Rightarrow> bool" where
  "rendered now ev r =
     (case ev of
        None \<Rightarrow> False
      | Some (ErrorValue e) \<Rightarrow>
          (case as_Loggable e of
             Some logFunc \<Rightarrow> renders logFunc r
           | None \<Rightarrow> r = now @ '' - '' @ Error e)
      | Some (OtherValue v) \<Rightarrow> r = v)"

fun caused_by_joined :: "string list \<Rightarrow> string" where
  "caused_by_joined [] = []"
| "caused_by_joined [r] = r"
| "caused_by_joined (r # rs) = r @ ''\<newline>Caused by:\<newline>'' @ caused_by_joined rs"

section \<open>Example objects\<close>

text \<open>A child that counts the calls it receives and always returns \<open>r\<close>.\<close>

definition counting_logger :: "bool \<Rightarrow> error option \<Rightarrow> (string, nat) Logger" where
  "counting_logger robust r =
     \<lparr>isRobust = robust,
      Log_method = (\<lambda>ev n. (r, Suc n)),
      LogNoStack_method = (\<lambda>ev n. (r, Suc n)),
      LogJson_method = (\<lambda>ev n. (r, Suc n)),
      obj = 0\<rparr>"

definition three_children :: "(string, nat, error list) PolyLogger" where
  "three_children =
     NewPolyLogger
       [counting_logger True None,
        counting_logger False (Some (ForeignError ''disk full'')),
        counting_logger True (Some (ForeignError ''connection lost''))]"

definition one_failing :: "(string, nat, error list) PolyLogger" where
  "one_failing =
     NewPolyLogger
       [counting_logger True None,
        counting_logger False None,
        counting_logger True (Some (ForeignError ''connection lost''))]"

text \<open>
  A file nothing was written to and that has no fault in store, a logger on it, an error
  that is only an \<^verbatim>\<open>error\<close> (as \<^verbatim>\<open>errors.New\<close> makes), an error of the package's kind
  whose \<open>Log\<close> writes a full rendering and whose \<open>LogNoStack\<close> writes the message, with
  one write each, and a clock that stands still.
\<close>

definition fresh_file :: os_File where
  "fresh_file = \<lparr>history = [], faults = []\<rparr>"

definition fresh_logger :: FileLogger where
  "fresh_logger = \<lparr>logFilePath = ''app.log'', file' = fresh_file\<rparr>"

definition plain_error :: "string \<Rightarrow> go_error" where
  "plain_error msg = \<lparr>Error = msg, Log_impl = None, LogNoStack_impl = None, LogAsJson_impl = None\<rparr>"

definition stack_error :: "string \<Rightarrow> string \<Rightarrow> go_error" where
  "stack_error msg full =
     \<lparr>Error = msg,
      Log_impl = Some (\<lambda>w. File_Write w full),
      LogNoStack_impl = Some (\<lambda>w. File_Write w msg),
      LogAsJson_impl = None\<rparr>"

definition noon :: "nat \<Rightarrow> string" where
  "noon i = ''12:00:00''"

text \<open>An encoder for the examples, and a logger whose next write fails.\<close>

definition toy_Marshal :: "string \<Rightarrow> string \<Rightarrow> error + string" where
  "toy_Marshal t m = Inr (''{Message: '' @ m @ '', Time: '' @ t @ ''}'')"

definition full_disk_logger :: FileLogger where
  "full_disk_logger =
     \<lparr>logFilePath = ''app.log'',
      file' = \<lparr>history = [Write ''earlier entry''], faults = [Some (SysError ''no space left on device'')]\<rparr>\<rparr>"

text \<open>A logger on a disk where every write fails, as far as two writes go.\<close>

definition failing_disk_logger :: FileLogger where
  "failing_disk_logger =
     \<lparr>logFilePath = ''app.log'',
      file' = \<lparr>history = [Write ''earlier entry''],
               faults = [Some (SysError ''no space left on device''),
                         Some (SysError ''no space left on device'')]\<rparr>\<rparr>"

text \<open>
  Modelled from the spec: the methods of \<^verbatim>\<open>RollingFileLogger\<close>, for the examples only.
  The three log operations are those of the embedded \<^verbatim>\<open>FileLogger\<close> ("delegates all
  three log operations to it"); \<open>roll\<close> opens a file under a fresh time-stamped name
  derived from the base path and swaps it in, and returns the error when the open fails.
  In the example no further file can be opened.
\<close>

definition example_methods :: RollingFileLogger_methods where
  "example_methods =
     \<lparr>rolling_Log = (\<lambda>errToLog r.
        case FileLogger_Log noon [map_option ErrorValue errToLog] (embedded_FileLogger r) of
          (err, l) \<Rightarrow> (err, r\<lparr>embedded_FileLogger := l\<rparr>)),
      rolling_LogNoStack = (\<lambda>errToLog r.
        case FileLogger_LogNoStack ''12:00:00'' errToLog (embedded_FileLogger r) of
          (err, l) \<Rightarrow> (err, r\<lparr>embedded_FileLogger := l\<rparr>)),
      rolling_LogJson = (\<lambda>errToLog r.
        case FileLogger_LogJson toy_Marshal ''12:00:00'' errToLog (embedded_FileLogger r) of
          (err, l) \<Rightarrow> (err, r\<lparr>embedded_FileLogger := l\<rparr>)),
      rolling_roll = (\<lambda>r.
        case NewFileLogger (\<lambda>name. Inl (SysError ''too many open files''))
               (baseFilePath r @ ''.12-00-00'') of
          Inl err \<Rightarrow> (Some err, r)
        | Inr l \<Rightarrow> (None, r\<lparr>embedded_FileLogger := l\<rparr>))\<rparr>"

text \<open>
  Modelled from the spec: the same methods where the open of \<open>roll\<close> succeeds, for the
  examples only; the new file is empty and has no fault in store.
\<close>

definition reopening_methods :: RollingFileLogger_methods where
  "reopening_methods =
     example_methods
       \<lparr>rolling_roll := (\<lambda>r.
          case NewFileLogger (\<lambda>name. Inr fresh_file) (baseFilePath r @ ''.12-00-00'') of
            Inl err \<Rightarrow> (Some err, r)
          | Inr l \<Rightarrow> (None, r\<lparr>embedded_FileLogger := l\<rparr>))\<rparr>"

text \<open>A rolling logger one message short of its threshold, on a good and on a full disk.\<close>

definition about_to_roll :: SizeBasedRollingFileLogger where
  "about_to_roll =
     \<lparr>embedded_RollingFileLogger =
        \<lparr>embedded_FileLogger = fresh_logger, baseFilePath = ''app.log''\<rparr>,
      countToRollOn = 3,
      curCount = 2\<rparr>"

definition on_full_disk :: SizeBasedRollingFileLogger where
  "on_full_disk =
     \<lparr>embedded_RollingFileLogger =
        \<lparr>embedded_FileLogger = full_disk_logger, baseFilePath = ''app.log''\<rparr>,
      countToRollOn = 3,
      curCount = 2\<rparr>"

text \<open>The same three children in a composite made with a \<^verbatim>\<open>nil\<close> handler.\<close>

definition no_handler :: "(string, nat, error list) PolyLogger" where
  "no_handler =
     NewPolyLoggerWithHandleLoggerFail
       [counting_logger True None,
        counting_logger False None,
        counting_logger True (Some (ForeignError ''connection lost''))]
       None"

section \<open>Scheduling and running goroutines\<close>

lemma take_drop_mset:
  "k < length xs \<Longrightarrow> add_mset (xs ! k) (mset (take k xs @ drop (Suc k) xs)) = mset xs"
proof -
  assume k: "k < length xs"
  have "mset xs = mset (take k xs @ xs ! k # drop (Suc k) xs)"
    using id_take_nth_drop [OF k] by simp
  then show ?thesis by simp
qed

lemma goroutine_order_mset: "mset (goroutine_order sched gs) = mset gs"
proof (induction sched gs rule: goroutine_order.induct)
  case (3 c cs g gs)
  let ?xs = "g # gs"
  let ?k = "c mod length ?xs"
  have k: "?k < length ?xs" by simp
  have "mset (goroutine_order (c # cs) ?xs) =
        add_mset (?xs ! ?k) (mset (take ?k ?xs @ drop (Suc ?k) ?xs))"
    using "3.IH" [of ?k] by (simp add: Let_def del: nth_Cons_Suc take_Suc_Cons drop_Suc_Cons)
  also have "\<dots> = mset ?xs" using take_drop_mset [OF k] .
  finally show ?case .
qed simp_all

text \<open>
  Conversely every order of the goroutines is the order of some schedule, so a
  statement for all schedules is a statement for all orders in which they can run.
\<close>

lemma goroutine_order_pick:
  assumes "k < length gs"
  shows "goroutine_order (k # cs) gs = gs ! k # goroutine_order cs (take k gs @ drop (Suc k) gs)"
proof (cases gs)
  case Nil
  then show ?thesis using assms by simp
next
  case (Cons g gs')
  have "k mod length (g # gs') = k" using assms Cons by simp
  then show ?thesis unfolding Cons goroutine_order.simps Let_def by simp
qed

lemma every_order_is_scheduled:
  "mset order = mset gs \<Longrightarrow> \<exists>sched. goroutine_order sched gs = order"
proof (induction order arbitrary: gs)
  case Nil
  then show ?case by simp
next
  case (Cons x order)
  have "x \<in> set gs" using Cons.prems by (metis list.set_intros(1) mset_eq_setD)
  then obtain k where k: "k < length gs" "gs ! k = x" by (auto simp: in_set_conv_nth)
  let ?rest = "take k gs @ drop (Suc k) gs"
  have "add_mset x (mset ?rest) = mset gs" using take_drop_mset [OF k(1)] k(2) by simp
  also have "\<dots> = add_mset x (mset order)" using Cons.prems by simp
  finally have "mset order = mset ?rest" by simp
  then obtain sched where "goroutine_order sched ?rest = order" using Cons.IH by blast
  then have "goroutine_order (k # sched) gs = x # order"
    using goroutine_order_pick [OF k(1)] k(2) by simp
  then show ?case by blast
qed

lemma run_length:
  "length (fst (foldl (\<lambda>st g. runLoggerWithFail p g ev st) (ls, w) gs)) = length ls"
  by (induction gs arbitrary: ls w) (auto simp: runLoggerWithFail_def split: prod.splits)

lemma run_children:
  assumes "distinct (map fst gs)" "j < length ls"
  shows "fst (foldl (\<lambda>st g. runLoggerWithFail p g ev st) (ls, w) gs) ! j =
         (case map_of gs j of
            None \<Rightarrow> ls ! j
          | Some f \<Rightarrow> (ls ! j)\<lparr>obj := snd (f ev (obj (ls ! j)))\<rparr>)"
  using assms
proof (induction gs arbitrary: ls w)
  case Nil
  then show ?case by simp
next
  case (Cons g gs)
  obtain i f where g: "g = (i, f)" by (cases g)
  obtain err s' where r: "f ev (obj (ls ! i)) = (err, s')" by (cases "f ev (obj (ls ! i))")
  let ?ls = "ls[i := (ls ! i)\<lparr>obj := s'\<rparr>]"
  have step: "runLoggerWithFail p (i, f) ev (ls, w) = (?ls, handled p w err)"
    by (simp add: runLoggerWithFail_def r handled_def)
  have d: "distinct (map fst gs)" and ni: "i \<notin> fst ` set gs"
    using Cons.prems(1) g by auto
  have j: "j < length ?ls" using Cons.prems(2) by simp
  have IH: "fst (foldl (\<lambda>st g. runLoggerWithFail p g ev st) (?ls, handled p w err) gs) ! j =
         (case map_of gs j of
            None \<Rightarrow> ?ls ! j
          | Some f \<Rightarrow> (?ls ! j)\<lparr>obj := snd (f ev (obj (?ls ! j)))\<rparr>)"
    using Cons.IH [OF d j] .
  show ?case
  proof (cases "j = i")
    case True
    then have "map_of gs j = None" using ni by (simp add: map_of_eq_None_iff)
    then show ?thesis using IH True Cons.prems(2) by (simp add: step g r)
  next
    case False
    then show ?thesis using IH by (simp add: step g split: option.split)
  qed
qed

lemma run_world:
  assumes "distinct (map fst gs)"
  shows "snd (foldl (\<lambda>st g. runLoggerWithFail p g ev st) (ls, w) gs) =
         foldl (handled p) w (map (\<lambda>g. fst (snd g ev (obj (ls ! fst g)))) gs)"
  using assms
proof (induction gs arbitrary: ls w)
  case Nil
  then show ?case by simp
next
  case (Cons g gs)
  obtain i f where g: "g = (i, f)" by (cases g)
  obtain err s' where r: "f ev (obj (ls ! i)) = (err, s')" by (cases "f ev (obj (ls ! i))")
  let ?ls = "ls[i := (ls ! i)\<lparr>obj := s'\<rparr>]"
  have step: "runLoggerWithFail p (i, f) ev (ls, w) = (?ls, handled p w err)"
    by (simp add: runLoggerWithFail_def r handled_def)
  have d: "distinct (map fst gs)" and ni: "i \<notin> fst ` set gs"
    using Cons.prems(1) g by auto
  have same: "map (\<lambda>g. fst (snd g ev (obj (?ls ! fst g)))) gs =
              map (\<lambda>g. fst (snd g ev (obj (ls ! fst g)))) gs"
    using ni by (intro map_cong) (auto simp: nth_list_update image_iff)
  show ?case using Cons.IH [OF d, of ?ls "handled p w err"]
    by (simp add: g step same r)
qed


lemma waitGroup_Wait_dispatch:
  assumes d: "distinct idxs" and b: "\<forall>i\<in>set idxs. i < length ls"
    and run: "waitGroup_Wait p sched (map (\<lambda>i. (i, m (ls ! i))) idxs) ev (ls, w) = (ls', w')"
  shows "length ls' = length ls"
    and "j < length ls \<Longrightarrow>
         ls' ! j = (if j \<in> set idxs then (ls ! j)\<lparr>obj := snd (m (ls ! j) ev (obj (ls ! j)))\<rparr>
                    else ls ! j)"
    and "\<exists>js. mset js = mset idxs \<and>
           w' = foldl (handled p) w (map (\<lambda>j. fst (m (ls ! j) ev (obj (ls ! j)))) js)"
proof -
  let ?gs = "map (\<lambda>i. (i, m (ls ! i))) idxs"
  let ?order = "goroutine_order sched ?gs"
  have ms: "mset ?order = mset ?gs" by (rule goroutine_order_mset)
  have fsts: "map fst ?gs = idxs" by (induction idxs) auto
  have "mset (map fst ?order) = mset (map fst ?gs)" unfolding mset_map ms ..
  then have mi: "mset (map fst ?order) = mset idxs" by (simp only: fsts)
  have dist: "distinct (map fst ?order)"
    using mset_eq_imp_distinct_iff [OF mi] d by simp
  have sets: "set ?order = set ?gs" using mset_eq_setD [OF ms] .
  have mem: "\<And>g. g \<in> set ?order \<Longrightarrow> snd g = m (ls ! fst g)"
    unfolding sets by auto
  have fold: "foldl (\<lambda>st g. runLoggerWithFail p g ev st) (ls, w) ?order = (ls', w')"
    using run by (simp add: waitGroup_Wait_def)
  show "length ls' = length ls"
    using run_length [of p ev ls w ?order] fold by simp
  show "ls' ! j = (if j \<in> set idxs then (ls ! j)\<lparr>obj := snd (m (ls ! j) ev (obj (ls ! j)))\<rparr>
                    else ls ! j)" if j: "j < length ls"
  proof (cases "j \<in> set idxs")
    case True
    then have "(j, m (ls ! j)) \<in> set ?order" using sets by auto
    then have "map_of ?order j = Some (m (ls ! j))" using dist by simp
    then show ?thesis using run_children [OF dist j, of p ev w] fold True by simp
  next
    case False
    then have "j \<notin> fst ` set ?order" using sets by auto
    then have "map_of ?order j = None" by (simp add: map_of_eq_None_iff)
    then show ?thesis using run_children [OF dist j, of p ev w] fold False by simp
  qed
  have eqm: "map (\<lambda>g. fst (snd g ev (obj (ls ! fst g)))) ?order =
        map (\<lambda>j. fst (m (ls ! j) ev (obj (ls ! j)))) (map fst ?order)"
    using mem by (simp add: comp_def)
  have "w' = foldl (handled p) w (map (\<lambda>g. fst (snd g ev (obj (ls ! fst g)))) ?order)"
    using run_world [OF dist, of p ev ls w] fold by simp
  then have "w' = foldl (handled p) w (map (\<lambda>j. fst (m (ls ! j) ev (obj (ls ! j)))) (map fst ?order))"
    by (simp only: eqm)
  then show "\<exists>js. mset js = mset idxs \<and>
           w' = foldl (handled p) w (map (\<lambda>j. fst (m (ls ! j) ev (obj (ls ! j)))) js)"
    using mi by blast
qed

lemma robust_positions_props:
  "distinct (robust_positions ls)"
  "set (robust_positions ls) = {j. j < length ls \<and> isRobust (ls ! j)}"
  by (auto simp: robust_positions_def)

lemma handled_all_None: "\<forall>e\<in>set errs. e = None \<Longrightarrow> foldl (handled p) w errs = w"
  by (induction errs arbitrary: w) (auto simp: handled_def)

lemma handled_one_Some:
  assumes "distinct js" "i \<in> set js" "g i = Some e" "\<forall>j\<in>set js. j \<noteq> i \<longrightarrow> g j = None"
  shows "foldl (handled p) w (map g js) = handled p w (Some e)"
  using assms
proof (induction js arbitrary: w)
  case Nil
  then show ?case by simp
next
  case (Cons a js)
  show ?case
  proof (cases "a = i")
    case True
    then have "\<forall>x\<in>set (map g js). x = None" using Cons.prems by auto
    then show ?thesis using True Cons.prems(3) by (simp add: handled_all_None)
  next
    case False
    then have "g a = None" "i \<in> set js" using Cons.prems by auto
    then show ?thesis using Cons.IH [of w] Cons.prems by (simp add: handled_def)
  qed
qed


section \<open>Properties of the composite\<close>

text \<open>With no handler set (\<^verbatim>\<open>nil\<close>) the errors of the children are dropped.\<close>

lemma handled_nil_handler: "handleLoggerFail p = None \<Longrightarrow> foldl (handled p) w errs = w"
  by (induction errs arbitrary: w) (auto simp: handled_def split: option.splits)


text \<open>
  C1. Whatever the children, the event, the order in which the goroutines run and the
  outcome of each child (an error or none), \<open>Log\<close>, \<open>LogNoStack\<close> and \<open>LogJson\<close> of the
  composite return \<^verbatim>\<open>nil\<close>: no error of a child reaches the caller.
\<close>

theorem PolyLogger_returns_nil:
  "fst (PolyLogger_Log p sched errToLog w) = None \<and>
   fst (PolyLogger_LogNoStack p sched errToLog w) = None \<and>
   fst (PolyLogger_LogJson p sched errToLog w) = None"
  by (simp add: PolyLogger_Log_def PolyLogger_LogNoStack_def PolyLogger_LogJson_def
      Let_def split: prod.split)


lemma robust_dispatch:
  assumes "waitGroup_Wait p sched (map (\<lambda>i. (i, m (Loggers p ! i))) (robust_positions (Loggers p))) ev
             (Loggers p, w) = (ls', w')"
  shows "dispatched_to_robust_only m p ev w (p\<lparr>Loggers := ls'\<rparr>, w')"
proof -
  let ?ls = "Loggers p"
  have b: "\<forall>i\<in>set (robust_positions ?ls). i < length ?ls"
    by (simp add: robust_positions_props)
  note D = waitGroup_Wait_dispatch [OF robust_positions_props(1) b assms]
  obtain js where js: "mset js = mset (robust_positions ?ls)"
    "w' = foldl (handled p) w (map (\<lambda>j. fst (m (?ls ! j) ev (obj (?ls ! j)))) js)"
    using D(3) by blast
  have "distinct js" using mset_eq_imp_distinct_iff [OF js(1)] robust_positions_props(1) by blast
  moreover have "set js = {j. j < length ?ls \<and> isRobust (?ls ! j)}"
    using mset_eq_setD [OF js(1)] by (simp add: robust_positions_props)
  ultimately have ex: "\<exists>js. distinct js \<and> set js = {j. j < length ?ls \<and> isRobust (?ls ! j)} \<and>
           w' = foldl (handled p) w (map (\<lambda>j. outcome m ev (?ls ! j)) js)"
    using js(2) unfolding outcome_def by blast
  have ch: "\<forall>j<length ?ls. ls' ! j = (if isRobust (?ls ! j) then called m ev (?ls ! j) else ?ls ! j)"
    using D(2) by (simp add: robust_positions_props called_def)
  show ?thesis
    unfolding dispatched_to_robust_only_def using D(1) ch ex by simp
qed

text \<open>
  C2. \<open>LogNoStack\<close> and \<open>LogJson\<close> of the composite, for every list of children, event and
  order of the goroutines, call the method on exactly the children that pass the
  \<^verbatim>\<open>RobustLogger\<close> assertion: such a child is left as its method leaves it, every other
  child is untouched, and the handler sees the outcomes of the robust children only.
\<close>

theorem PolyLogger_LogNoStack_LogJson_dispatch:
  "dispatched_to_robust_only LogNoStack_method p errToLog w
     (snd (PolyLogger_LogNoStack p sched errToLog w)) \<and>
   dispatched_to_robust_only LogJson_method p errToLog w
     (snd (PolyLogger_LogJson p sched errToLog w))"
proof
  obtain ls' w' where r: "waitGroup_Wait p sched
      (map (\<lambda>i. (i, LogNoStack_method (Loggers p ! i))) (robust_positions (Loggers p))) errToLog
      (Loggers p, w) = (ls', w')" by fastforce
  show "dispatched_to_robust_only LogNoStack_method p errToLog w
     (snd (PolyLogger_LogNoStack p sched errToLog w))"
    using robust_dispatch [OF r] by (simp add: PolyLogger_LogNoStack_def r)
next
  obtain ls' w' where r: "waitGroup_Wait p sched
      (map (\<lambda>i. (i, LogJson_method (Loggers p ! i))) (robust_positions (Loggers p))) errToLog
      (Loggers p, w) = (ls', w')" by fastforce
  show "dispatched_to_robust_only LogJson_method p errToLog w
     (snd (PolyLogger_LogJson p sched errToLog w))"
    using robust_dispatch [OF r] by (simp add: PolyLogger_LogJson_def r)
qed

text \<open>
  The example: the second child is not robust and would fail; it gets no call (its counter
  stays 0) and its error is not handled, the other two are called once each.
\<close>

theorem PolyLogger_LogNoStack_LogJson_dispatch_witness:
  "Loggers (fst (snd (PolyLogger_LogNoStack three_children [1] ''boom'' []))) ! 1 =
     counting_logger False (Some (ForeignError ''disk full'')) \<and>
   Loggers (fst (snd (PolyLogger_LogJson three_children [1] ''boom'' []))) ! 1 =
     counting_logger False (Some (ForeignError ''disk full'')) \<and>
   map obj (Loggers (fst (snd (PolyLogger_LogNoStack three_children [1] ''boom'' [])))) = [1, 0, 1] \<and>
   snd (snd (PolyLogger_LogNoStack three_children [1] ''boom'' [])) =
     [ForeignError ''connection lost'']"
proof -
  have ls: "Loggers three_children =
      [counting_logger True None,
       counting_logger False (Some (ForeignError ''disk full'')),
       counting_logger True (Some (ForeignError ''connection lost''))]"
    by (simp add: three_children_def NewPolyLogger_def NewPolyLoggerWithHandleLoggerFail_def)
  have nr: "\<not> isRobust (counting_logger False (Some (ForeignError ''disk full'')))"
    by (simp add: counting_logger_def)
  have untouched:
    "Loggers (fst (snd (PolyLogger_LogNoStack three_children [1] ''boom'' []))) ! 1 =
       counting_logger False (Some (ForeignError ''disk full'')) \<and>
     Loggers (fst (snd (PolyLogger_LogJson three_children [1] ''boom'' []))) ! 1 =
       counting_logger False (Some (ForeignError ''disk full''))"
    using PolyLogger_LogNoStack_LogJson_dispatch [of three_children "''boom''" "[]" "[1]"] nr
    by (simp add: dispatched_to_robust_only_def ls split: prod.splits)
  have run: "map obj (Loggers (fst (snd (PolyLogger_LogNoStack three_children [1] ''boom'' [])))) = [1, 0, 1] \<and>
     snd (snd (PolyLogger_LogNoStack three_children [1] ''boom'' [])) =
       [ForeignError ''connection lost'']"
    by code_simp
  show ?thesis using untouched run by simp
qed

text \<open>
  C3, as amended. When exactly one child, the one at position \<open>i\<close>, returns an error \<open>e\<close>
  from its \<open>Log\<close>, then whatever the order of the goroutines the composite's \<open>Log\<close>
  returns \<^verbatim>\<open>nil\<close> and every child, the failing one and the others, is as its own \<open>Log\<close>
  leaves it; when a handler \<open>h\<close> is set the world is the one a single call \<open>h e\<close> leaves
  (the handler ran once, with that error), and when none is set (\<^verbatim>\<open>nil\<close>) the world is
  as it was: the error is dropped and no handler runs.
\<close>

theorem PolyLogger_Log_one_failure:
  assumes i: "i < length (Loggers p)"
    and fail: "outcome Log_method errToLog (Loggers p ! i) = Some e"
    and others: "\<forall>j<length (Loggers p). j \<noteq> i \<longrightarrow> outcome Log_method errToLog (Loggers p ! j) = None"
  shows "\<exists>p'. PolyLogger_Log p sched errToLog w =
                (None, p', (case handleLoggerFail p of None \<Rightarrow> w | Some h \<Rightarrow> h e w)) \<and>
           length (Loggers p') = length (Loggers p) \<and>
           (\<forall>j<length (Loggers p). Loggers p' ! j = called Log_method errToLog (Loggers p ! j))"
proof -
  let ?ls = "Loggers p"
  let ?idxs = "[0..<length ?ls]"
  let ?g = "\<lambda>j. fst (Log_method (?ls ! j) errToLog (obj (?ls ! j)))"
  obtain ls' w' where r: "waitGroup_Wait p sched (map (\<lambda>i. (i, Log_method (?ls ! i))) ?idxs) errToLog
      (?ls, w) = (ls', w')" by (rule prod.exhaust)
  have b: "\<forall>i\<in>set ?idxs. i < length ?ls" by simp
  note D = waitGroup_Wait_dispatch [OF distinct_upt b r]
  obtain js where js: "mset js = mset ?idxs" "w' = foldl (handled p) w (map ?g js)"
    using D(3) by blast
  have dj: "distinct js" using mset_eq_imp_distinct_iff [OF js(1)] by simp
  have sj: "set js = set ?idxs" using mset_eq_setD [OF js(1)] .
  have ij: "i \<in> set js" unfolding sj using i by simp
  have gi: "?g i = Some e" using fail by (simp add: outcome_def)
  have gj: "\<forall>j\<in>set js. j \<noteq> i \<longrightarrow> ?g j = None"
    unfolding sj using others by (simp add: outcome_def)
  have "foldl (handled p) w (map ?g js) = handled p w (Some e)"
    using dj ij gi gj by (rule handled_one_Some)
  then have w': "w' = (case handleLoggerFail p of None \<Rightarrow> w | Some h \<Rightarrow> h e w)"
    by (simp add: js(2) handled_def)
  have "PolyLogger_Log p sched errToLog w =
          (None, p\<lparr>Loggers := ls'\<rparr>, (case handleLoggerFail p of None \<Rightarrow> w | Some h \<Rightarrow> h e w))"
    by (simp add: PolyLogger_Log_def r w')
  moreover have "\<forall>j<length ?ls. ls' ! j = called Log_method errToLog (?ls ! j)"
    using D(2) by (simp add: called_def)
  ultimately show ?thesis using D(1) by simp
qed

text \<open>
  The example: of three children only the third fails; the default handler prints that
  one error and each child has counted one call.
\<close>

theorem PolyLogger_Log_one_failure_witness:
  "\<exists>p'. PolyLogger_Log one_failing [5, 0] ''boom'' [] =
          (None, p', [ForeignError ''connection lost'']) \<and>
        map obj (Loggers p') = [1, 1, 1]"
proof -
  have ls: "Loggers one_failing = [counting_logger True None, counting_logger False None,
             counting_logger True (Some (ForeignError ''connection lost''))]"
    by (simp add: one_failing_def NewPolyLogger_def NewPolyLoggerWithHandleLoggerFail_def)
  have h: "handleLoggerFail one_failing = Some defaultHandleLoggerFail"
    by (simp add: one_failing_def NewPolyLogger_def NewPolyLoggerWithHandleLoggerFail_def)
  have i: "2 < length (Loggers one_failing)" by (simp add: ls)
  have fail: "outcome Log_method ''boom'' (Loggers one_failing ! 2) =
      Some (ForeignError ''connection lost'')"
    unfolding ls by (simp add: outcome_def counting_logger_def)
  have others: "\<forall>j<length (Loggers one_failing). j \<noteq> 2 \<longrightarrow>
      outcome Log_method ''boom'' (Loggers one_failing ! j) = None"
    unfolding ls by (simp add: outcome_def counting_logger_def less_Suc_eq numeral_3_eq_3)
  obtain p' where p': "PolyLogger_Log one_failing [5, 0] ''boom'' [] =
        (None, p', (case handleLoggerFail one_failing of None \<Rightarrow> []
                    | Some h \<Rightarrow> h (ForeignError ''connection lost'') []))"
    "length (Loggers p') = length (Loggers one_failing)"
    "\<forall>j<length (Loggers one_failing).
       Loggers p' ! j = called Log_method ''boom'' (Loggers one_failing ! j)"
    using PolyLogger_Log_one_failure [OF i fail others, of "[5, 0]" "[]"] by blast
  have "map obj (Loggers p') = [1, 1, 1]"
    using p'(2,3) unfolding ls
    by (simp add: list_eq_iff_nth_eq less_Suc_eq numeral_3_eq_3 called_def counting_logger_def)
  then show ?thesis using p'(1) by (simp add: h defaultHandleLoggerFail_def)
qed

text \<open>
  The claim as first stated fails on a composite made with a \<^verbatim>\<open>nil\<close> handler, which
  \<open>runLoggerWithFail\<close> guards against: the third child fails, the other two do not, and
  no handler runs, the world (here what the default handler would have printed to)
  stays empty.
\<close>

theorem PolyLogger_Log_nil_handler_not_invoked:
  "handleLoggerFail no_handler = None \<and>
   outcome Log_method ''boom'' (Loggers no_handler ! 0) = None \<and>
   outcome Log_method ''boom'' (Loggers no_handler ! 1) = None \<and>
   outcome Log_method ''boom'' (Loggers no_handler ! 2) = Some (ForeignError ''connection lost'') \<and>
   length (Loggers no_handler) = 3 \<and>
   fst (PolyLogger_Log no_handler [5, 0] ''boom'' []) = None \<and>
   snd (snd (PolyLogger_Log no_handler [5, 0] ''boom'' [])) = []"
  by (simp add: no_handler_def NewPolyLoggerWithHandleLoggerFail_def outcome_def counting_logger_def
      PolyLogger_Log_def waitGroup_Wait_def runLoggerWithFail_def upt_rec)


section \<open>Properties of the file logger\<close>

lemma File_Write_ok:
  "faults f = [] \<Longrightarrow> File_Write f b = (None, f\<lparr>history := history f @ [Write b]\<rparr>)"
  by (simp add: File_Write_def next_outcome_def)

lemma File_Sync_ok:
  "faults f = [] \<Longrightarrow> File_Sync f = (None, f\<lparr>history := history f @ [Sync]\<rparr>)"
  by (simp add: File_Sync_def next_outcome_def)

lemma content_Write [simp]: "content (f\<lparr>history := history f @ [Write b]\<rparr>) = content f @ b"
  by (simp add: content_def)

lemma content_Sync [simp]: "content (f\<lparr>history := history f @ [Sync]\<rparr>) = content f"
  by (simp add: content_def)

lemma File_Write_failed:
  "fst (File_Write f b) \<noteq> None \<Longrightarrow> content (snd (File_Write f b)) = content f"
  by (auto simp: File_Write_def next_outcome_def content_def split: list.splits option.splits)

lemma log_renders:
  assumes "renders logFunc r" "faults f = []" "fst (log logFunc f) = None"
  shows "faults (snd (log logFunc f)) = [] \<and> content (snd (log logFunc f)) = content f @ r"
proof -
  obtain res f' where lf: "logFunc f = (res, f')" by (rule prod.exhaust)
  have "res = None" using assms(3) by (cases res) (simp_all add: log_def lf)
  then have f': "logFunc f = (None, f')" using lf by simp
  have "faults f' = []" "content f' = content f @ r"
    using assms(1,2) f' unfolding renders_def by fastforce+
  then show ?thesis by (simp add: log_def f' File_Sync_ok)
qed

lemma logNonSherlogError_ok:
  assumes "faults f = []"
  shows "fst (logNonSherlogError now e f) = None \<and> faults (snd (logNonSherlogError now e f)) = [] \<and>
         content (snd (logNonSherlogError now e f)) = content f @ now @ '' - '' @ Error e"
  using assms by (simp add: logNonSherlogError_def File_Write_ok content_def)

lemma write_caused_by_ok:
  assumes "faults f = []"
  shows "faults (write_caused_by remaining f) = [] \<and>
         content (write_caused_by remaining f) =
           content f @ (if remaining \<noteq> [] then ''\<newline>Caused by:\<newline>'' else [])"
  using assms by (simp add: write_caused_by_def File_Write_ok)

lemma caused_by_joined_Cons:
  "caused_by_joined (r # rs) = r @ (if rs \<noteq> [] then ''\<newline>Caused by:\<newline>'' else []) @ caused_by_joined rs"
  by (cases rs) simp_all

lemma Log_range_rendered:
  assumes "fst (Log_range clock i evs f) = None" "faults f = []" "length rs = length evs"
    "\<forall>k<length evs. rendered (clock (i + k)) (evs ! k) (rs ! k)"
  shows "faults (snd (Log_range clock i evs f)) = [] \<and>
         content (snd (Log_range clock i evs f)) = content f @ caused_by_joined rs"
  using assms
proof (induction evs arbitrary: i f rs)
  case Nil
  then show ?case by simp
next
  case (Cons ev evs)
  obtain r rs' where rs: "rs = r # rs'" using Cons.prems(3) by (cases rs) auto
  have len: "length rs' = length evs" using Cons.prems(3) rs by simp
  have hd: "rendered (clock i) ev r" using Cons.prems(4) [rule_format, of 0] rs by simp
  have tl: "\<forall>k<length evs. rendered (clock (Suc i + k)) (evs ! k) (rs' ! k)"
  proof (intro allI impI)
    fix k assume "k < length evs"
    then show "rendered (clock (Suc i + k)) (evs ! k) (rs' ! k)"
      using Cons.prems(4) [rule_format, of "Suc k"] rs by simp
  qed
  have ne: "(evs \<noteq> []) = (rs' \<noteq> [])" using len by auto
  have step: "\<exists>f'. faults f' = [] \<and> content f' = content f @ r \<and>
      Log_range clock i (ev # evs) f = Log_range clock (Suc i) evs (write_caused_by evs f')"
  proof (cases ev)
    case None
    then show ?thesis using hd by (simp add: rendered_def)
  next
    case (Some v)
    show ?thesis
    proof (cases v)
      case (OtherValue s)
      have "r = s" using hd Some OtherValue by (simp add: rendered_def)
      then show ?thesis using Some OtherValue Cons.prems(2)
        by (intro exI [of _ "f\<lparr>history := history f @ [Write s]\<rparr>"])
           (simp add: File_Write_ok)
    next
      case (ErrorValue e)
      show ?thesis
      proof (cases "as_Loggable e")
        case None
        have "r = clock i @ '' - '' @ Error e" using hd Some ErrorValue None by (simp add: rendered_def)
        then show ?thesis
          using logNonSherlogError_ok [OF Cons.prems(2), of "clock i" e] Some ErrorValue None
          by (auto split: prod.splits)
      next
        case (Some logFunc)
        have rd: "renders logFunc r"
          using hd \<open>ev = Some v\<close> ErrorValue Some by (simp add: rendered_def)
        obtain res f1 where lg: "log logFunc f = (res, f1)" by (rule prod.exhaust)
        have "res = None"
          using Cons.prems(1) \<open>ev = Some v\<close> ErrorValue Some lg by (cases res) simp_all
        then have ok: "fst (log logFunc f) = None" using lg by simp
        show ?thesis
          using log_renders [OF rd Cons.prems(2) ok] \<open>ev = Some v\<close> ErrorValue Some lg \<open>res = None\<close>
          by (intro exI [of _ f1]) simp
      qed
    qed
  qed
  then obtain f' where f': "faults f' = []" "content f' = content f @ r"
    "Log_range clock i (ev # evs) f = Log_range clock (Suc i) evs (write_caused_by evs f')"
    by blast
  note W = write_caused_by_ok [OF f'(1), of evs]
  have ok': "fst (Log_range clock (Suc i) evs (write_caused_by evs f')) = None"
    using Cons.prems(1) by (simp only: f'(3))
  note IH = Cons.IH [OF ok' conjunct1 [OF W] len tl]
  show ?case
    unfolding f'(3) rs caused_by_joined_Cons using IH W f'(2) ne by simp
qed

lemma File_Write_succeeded:
  "fst (File_Write f b) = None \<Longrightarrow> content (snd (File_Write f b)) = content f @ b"
  by (auto simp: File_Write_def next_outcome_def content_def split: list.splits option.splits)

lemma LogJson_fallback_failed:
  assumes "fst (LogJson_fallback json_Marshal now e f) = Some err"
  shows "content (snd (LogJson_fallback json_Marshal now e f)) = content f"
proof (cases "json_Marshal now (Error e)")
  case (Inl a)
  then show ?thesis by (simp add: LogJson_fallback_def)
next
  case (Inr b)
  then have "fst (File_Write f b) \<noteq> None" using assms by (simp add: LogJson_fallback_def)
  then show ?thesis using Inr by (simp add: LogJson_fallback_def File_Write_failed)
qed

lemma FileLogger_LogNoStack_nil: "FileLogger_LogNoStack now None l = (Some (AsError ''tried to log nil error''), l)"
  by (simp add: FileLogger_LogNoStack_def)

lemma FileLogger_LogJson_nil: "FileLogger_LogJson json_Marshal now None l = (Some (AsError ''tried to log nil error''), l)"
  by (simp add: FileLogger_LogJson_def)

lemma FileLogger_Log_Loggable_synced:
  "history (file' (snd (FileLogger_Log noon [Some (ErrorValue (stack_error ''boom'' ''boom at main.go:7''))] fresh_logger))) =
     [Write ''boom at main.go:7'', Sync, Write ''\<newline>\<newline>'']"
  by (simp add: FileLogger_Log_def fresh_logger_def fresh_file_def File_Write_def File_Sync_def next_outcome_def
      log_def as_Loggable_def stack_error_def noon_def write_caused_by_def)



text \<open>
  C4. A \<^verbatim>\<open>nil\<close> event makes every log operation return an error, and \<open>LogNoStack\<close> and
  \<open>LogJson\<close> return it before they touch the file (the two lemmas on \<^verbatim>\<open>nil\<close> above).
  \<open>Log\<close> does not: its check is inside the loop, after the deferred function was set
  up, so \<^verbatim>\<open>Log(nil)\<close> on an empty file returns the error and leaves two newline
  characters in the file.
\<close>

theorem FileLogger_Log_nil_writes_terminator:
  "fst (FileLogger_Log clock [None] fresh_logger) = Some (AsError ''tried to log nil error'') \<and>
   content (file' fresh_logger) = [] \<and>
   content (file' (snd (FileLogger_Log clock [None] fresh_logger))) = ''\<newline>\<newline>''"
  by (simp add: FileLogger_Log_def fresh_logger_def fresh_file_def File_Write_def next_outcome_def content_def)

text \<open>
  C5. A successful \<open>Log\<close> of an error that is not \<^verbatim>\<open>Loggable\<close> writes the time, the
  separator, the message and the terminator, and never syncs the file: the history of
  the call has no \<open>Sync\<close>. Only the \<^verbatim>\<open>Loggable\<close> path (\<open>log\<close>) syncs, as the lemma
  \<open>FileLogger_Log_Loggable_synced\<close> shows.
\<close>

theorem FileLogger_Log_plain_error_not_synced:
  "fst (FileLogger_Log noon [Some (ErrorValue (plain_error ''boom''))] fresh_logger) = None \<and>
   history (file' (snd (FileLogger_Log noon [Some (ErrorValue (plain_error ''boom''))] fresh_logger))) =
     [Write ''12:00:00'', Write '' - '', Write ''boom'', Write ''\<newline>\<newline>'']"
  by (simp add: FileLogger_Log_def fresh_logger_def fresh_file_def File_Write_def next_outcome_def
      logNonSherlogError_def as_Loggable_def plain_error_def noon_def write_caused_by_def)

text \<open>
  C9, as amended. For a successful call of \<open>Log\<close> (it returns \<^verbatim>\<open>nil\<close>) during which no
  write or sync of the file fails, and with \<open>rs\<close> the renderings of its events, for each
  event its own full rendering when it is \<^verbatim>\<open>Loggable\<close>, time, \<^verbatim>\<open>" - "\<close> and message when
  it is any other error, and its default formatting alone when it is no error: the
  call appends the renderings, consecutive ones joined by the line \<^verbatim>\<open>Caused by:\<close>, and
  then two newline characters.
\<close>

theorem FileLogger_Log_output:
  assumes "fst (FileLogger_Log clock errorsToLog l) = None"
    and "faults (file' l) = []"
    and "length rs = length errorsToLog"
    and "\<forall>k<length errorsToLog. rendered (clock k) (errorsToLog ! k) (rs ! k)"
  shows "content (file' (snd (FileLogger_Log clock errorsToLog l))) =
           content (file' l) @ caused_by_joined rs @ ''\<newline>\<newline>''"
proof -
  have ne: "\<not> length errorsToLog < 1"
    using assms(1) by (auto simp: FileLogger_Log_def)
  obtain r f where rf: "Log_range clock 0 errorsToLog (file' l) = (r, f)" by (rule prod.exhaust)
  have "r = None" using assms(1) ne by (simp add: FileLogger_Log_def rf)
  then have ok: "fst (Log_range clock 0 errorsToLog (file' l)) = None" by (simp add: rf)
  have "\<forall>k<length errorsToLog. rendered (clock (0 + k)) (errorsToLog ! k) (rs ! k)"
    using assms(4) by simp
  note R = Log_range_rendered [OF ok assms(2) assms(3) this]
  have "faults f = []" "content f = content (file' l) @ caused_by_joined rs"
    using R rf by simp_all
  then show ?thesis using ne
    by (simp add: FileLogger_Log_def rf File_Write_ok)
qed

lemma renders_single_write: "renders (\<lambda>w. File_Write w full) full"
  by (simp add: renders_def File_Write_ok)

text \<open>
  The example: an error of the package's kind, a plain error and a number, logged in
  one call on an empty file.
\<close>

theorem FileLogger_Log_output_witness:
  "fst (FileLogger_Log noon
          [Some (ErrorValue (stack_error ''boom'' ''boom at main.go:7'')),
           Some (ErrorValue (plain_error ''disk full'')),
           Some (OtherValue ''42'')] fresh_logger) = None \<and>
   content (file' (snd (FileLogger_Log noon
          [Some (ErrorValue (stack_error ''boom'' ''boom at main.go:7'')),
           Some (ErrorValue (plain_error ''disk full'')),
           Some (OtherValue ''42'')] fresh_logger))) =
     ''boom at main.go:7\<newline>Caused by:\<newline>12:00:00 - disk full\<newline>Caused by:\<newline>42\<newline>\<newline>''"
proof -
  let ?evs = "[Some (ErrorValue (stack_error ''boom'' ''boom at main.go:7'')),
           Some (ErrorValue (plain_error ''disk full'')),
           Some (OtherValue ''42'')]"
  let ?rs = "[''boom at main.go:7'', ''12:00:00 - disk full'', ''42'']"
  have h1: "fst (FileLogger_Log noon ?evs fresh_logger) = None"
    by (simp add: FileLogger_Log_def fresh_logger_def fresh_file_def File_Write_def File_Sync_def
        next_outcome_def log_def logNonSherlogError_def as_Loggable_def stack_error_def
        plain_error_def write_caused_by_def)
  have h2: "faults (file' fresh_logger) = []" by (simp add: fresh_logger_def fresh_file_def)
  have h3: "length ?rs = length ?evs" by simp
  have h4: "\<forall>k<length ?evs. rendered (noon k) (?evs ! k) (?rs ! k)"
    by (simp add: less_Suc_eq numeral_3_eq_3 rendered_def as_Loggable_def stack_error_def
        plain_error_def noon_def renders_single_write)
  have c: "content (file' fresh_logger) = []"
    by (simp add: fresh_logger_def fresh_file_def content_def)
  show ?thesis
    using FileLogger_Log_output [OF h1 h2 h3 h4] h1 c by simp
qed

text \<open>
  The claim as first stated fails in two ways. A value that is not an error is written
  with its default formatting, with no time in front. And the results of the writes of
  the separator and of the terminator are dropped: when the write of the separator
  fails, \<open>Log\<close> of two events still returns \<^verbatim>\<open>nil\<close> and no \<^verbatim>\<open>Caused by:\<close> line is between
  them.
\<close>

theorem FileLogger_Log_other_value_no_timestamp:
  "fst (FileLogger_Log noon [Some (OtherValue ''disk at 91%'')] fresh_logger) = None \<and>
   content (file' (snd (FileLogger_Log noon [Some (OtherValue ''disk at 91%'')] fresh_logger))) =
     ''disk at 91%\<newline>\<newline>'' \<and>
   content (file' (snd (FileLogger_Log noon [Some (OtherValue ''disk at 91%'')] fresh_logger))) \<noteq>
     noon 0 @ '' - '' @ ''disk at 91%'' @ ''\<newline>\<newline>'' \<and>
   fst (FileLogger_Log noon
          [Some (ErrorValue (plain_error ''a'')), Some (ErrorValue (plain_error ''b''))]
          (fresh_logger\<lparr>file' := fresh_file\<lparr>faults := [None, None, None, Some (SysError ''i/o error'')]\<rparr>\<rparr>)) =
     None \<and>
   content (file' (snd (FileLogger_Log noon
          [Some (ErrorValue (plain_error ''a'')), Some (ErrorValue (plain_error ''b''))]
          (fresh_logger\<lparr>file' := fresh_file\<lparr>faults := [None, None, None, Some (SysError ''i/o error'')]\<rparr>\<rparr>)))) =
     ''12:00:00 - a12:00:00 - b\<newline>\<newline>''"
  by (simp add: FileLogger_Log_def fresh_logger_def fresh_file_def File_Write_def next_outcome_def
      logNonSherlogError_def as_Loggable_def plain_error_def noon_def write_caused_by_def content_def)

text \<open>
  C10, as amended. When the event is not \<^verbatim>\<open>JsonLoggable\<close> and the fallback of \<open>LogJson\<close>
  fails with \<open>err\<close>, the encoder returning it or the write of the encoded bytes returning
  it, the call returns \<open>err\<close> and the deferred write of one newline character is still
  issued, on the file as the failed fallback left it, its result dropped; and when that
  write goes through, the file holds what it held and the newline.
\<close>

theorem FileLogger_LogJson_failed_fallback_newline:
  assumes "as_JsonLoggable e = None"
    and "json_Marshal now (Error e) = Inl err \<or>
         (\<exists>jsonBytes. json_Marshal now (Error e) = Inr jsonBytes \<and>
            fst (File_Write (file' l) jsonBytes) = Some err)"
  shows "fst (FileLogger_LogJson json_Marshal now (Some e) l) = Some err \<and>
         snd (FileLogger_LogJson json_Marshal now (Some e) l) =
           l\<lparr>file' := snd (File_Write (snd (LogJson_fallback json_Marshal now e (file' l)))
                              ''\<newline>'')\<rparr> \<and>
         (fst (File_Write (snd (LogJson_fallback json_Marshal now e (file' l))) ''\<newline>'') = None
          \<longrightarrow>
            content (file' (snd (FileLogger_LogJson json_Marshal now (Some e) l))) =
              content (snd (LogJson_fallback json_Marshal now e (file' l))) @ ''\<newline>'' \<and>
            content (file' (snd (FileLogger_LogJson json_Marshal now (Some e) l))) =
              content (file' l) @ ''\<newline>'')"
proof -
  let ?fb = "LogJson_fallback json_Marshal now e (file' l)"
  have failed: "fst ?fb = Some err"
    using assms(2) by (auto simp: LogJson_fallback_def)
  have same: "content (snd ?fb) = content (file' l)"
    using LogJson_fallback_failed [OF failed] .
  obtain r f where rf: "?fb = (r, f)" by (rule prod.exhaust)
  have res: "FileLogger_LogJson json_Marshal now (Some e) l =
               (Some err, l\<lparr>file' := snd (File_Write (snd ?fb) ''\<newline>'')\<rparr>)"
    using failed assms(1) by (simp add: FileLogger_LogJson_def rf)
  have nl: "content (snd (File_Write (snd ?fb) ''\<newline>'')) = content (snd ?fb) @ ''\<newline>''"
    if "fst (File_Write (snd ?fb) ''\<newline>'') = None"
    using File_Write_succeeded [OF that] .
  show ?thesis
    using nl same by (simp add: res)
qed

text \<open>
  The example: the write of the encoded bytes fails on a full disk, the next write goes
  through.
\<close>

theorem FileLogger_LogJson_failed_fallback_newline_witness:
  "fst (FileLogger_LogJson toy_Marshal ''12:00:00'' (Some (plain_error ''boom'')) full_disk_logger) =
     Some (SysError ''no space left on device'') \<and>
   file' (snd (FileLogger_LogJson toy_Marshal ''12:00:00'' (Some (plain_error ''boom''))
      full_disk_logger)) =
     \<lparr>history = [Write ''earlier entry'', Write ''\<newline>''], faults = []\<rparr> \<and>
   content (file' (snd (FileLogger_LogJson toy_Marshal ''12:00:00'' (Some (plain_error ''boom''))
      full_disk_logger))) = ''earlier entry\<newline>''"
proof -
  have h1: "as_JsonLoggable (plain_error ''boom'') = None"
    by (simp add: as_JsonLoggable_def plain_error_def)
  have h2: "toy_Marshal ''12:00:00'' (Error (plain_error ''boom'')) = Inl (SysError ''no space left on device'') \<or>
         (\<exists>jsonBytes. toy_Marshal ''12:00:00'' (Error (plain_error ''boom'')) = Inr jsonBytes \<and>
            fst (File_Write (file' full_disk_logger) jsonBytes) = Some (SysError ''no space left on device''))"
    by (simp add: toy_Marshal_def full_disk_logger_def File_Write_def next_outcome_def)
  have h3: "File_Write (snd (LogJson_fallback toy_Marshal ''12:00:00'' (plain_error ''boom'')
      (file' full_disk_logger))) ''\<newline>'' =
      (None, \<lparr>history = [Write ''earlier entry'', Write ''\<newline>''], faults = []\<rparr>)"
    by (simp add: LogJson_fallback_def toy_Marshal_def full_disk_logger_def File_Write_def next_outcome_def)
  have c: "content (file' full_disk_logger) = ''earlier entry''"
    by (simp add: full_disk_logger_def content_def)
  show ?thesis
    using FileLogger_LogJson_failed_fallback_newline
            [where json_Marshal = toy_Marshal and now = "''12:00:00''" and l = full_disk_logger,
             OF h1 h2] h3 c
    by (simp add: content_def)
qed

text \<open>
  The claim as first stated fails when the deferred write fails as well, as on a full
  disk: its result is dropped, the call returns the error of the first write, and the
  file is as it was.
\<close>

theorem FileLogger_LogJson_newline_write_can_fail:
  "as_JsonLoggable (plain_error ''boom'') = None \<and>
   toy_Marshal ''12:00:00'' (Error (plain_error ''boom'')) = Inr ''{Message: boom, Time: 12:00:00}'' \<and>
   fst (File_Write (file' failing_disk_logger) ''{Message: boom, Time: 12:00:00}'') =
     Some (SysError ''no space left on device'') \<and>
   fst (FileLogger_LogJson toy_Marshal ''12:00:00'' (Some (plain_error ''boom'')) failing_disk_logger) =
     Some (SysError ''no space left on device'') \<and>
   content (file' (snd (FileLogger_LogJson toy_Marshal ''12:00:00'' (Some (plain_error ''boom''))
      failing_disk_logger))) = content (file' failing_disk_logger)"
  by (simp add: as_JsonLoggable_def plain_error_def toy_Marshal_def failing_disk_logger_def
      FileLogger_LogJson_def LogJson_fallback_def File_Write_def next_outcome_def content_def)

section \<open>Properties of the rolling logger\<close>

lemma perform_eq:
  "perform M c rfl =
     (case delegate M c (embedded_RollingFileLogger rfl) of
        (Some err, r') \<Rightarrow> (Some err, rfl\<lparr>embedded_RollingFileLogger := r'\<rparr>)
      | (None, r') \<Rightarrow> incAndRollIfNecessary M (rfl\<lparr>embedded_RollingFileLogger := r'\<rparr>))"
  by (cases c)
     (simp_all add: SizeBasedRollingFileLogger_Log_def SizeBasedRollingFileLogger_LogNoStack_def
        SizeBasedRollingFileLogger_LogJson_def)

lemma int64_id: "- (2 ^ 63) \<le> x \<Longrightarrow> x < 2 ^ 63 \<Longrightarrow> int64 x = x"
  by (simp add: int64_def)

lemma incAndRollIfNecessary_count:
  assumes "count_in_range rfl"
  shows "curCount (snd (incAndRollIfNecessary M rfl)) =
           (if curCount rfl + 1 < countToRollOn rfl then curCount rfl + 1 else 0)"
    and "countToRollOn (snd (incAndRollIfNecessary M rfl)) = countToRollOn rfl"
    and "countToRollOn rfl \<le> curCount rfl + 1 \<Longrightarrow>
           fst (incAndRollIfNecessary M rfl) = fst (rolling_roll M (embedded_RollingFileLogger rfl))"
    and "curCount rfl + 1 < countToRollOn rfl \<Longrightarrow>
           incAndRollIfNecessary M rfl = (None, rfl\<lparr>curCount := curCount rfl + 1\<rparr>)"
proof -
  have w: "int64 (curCount rfl + 1) = curCount rfl + 1"
    using assms by (intro int64_id) (simp_all add: count_in_range_def)
  show "curCount (snd (incAndRollIfNecessary M rfl)) =
           (if curCount rfl + 1 < countToRollOn rfl then curCount rfl + 1 else 0)"
    by (simp add: incAndRollIfNecessary_def roll_def w Let_def split: prod.splits)
  show "countToRollOn (snd (incAndRollIfNecessary M rfl)) = countToRollOn rfl"
    by (simp add: incAndRollIfNecessary_def roll_def w Let_def split: prod.splits)
  show "fst (incAndRollIfNecessary M rfl) = fst (rolling_roll M (embedded_RollingFileLogger rfl))"
    if "countToRollOn rfl \<le> curCount rfl + 1"
    using that by (simp add: incAndRollIfNecessary_def roll_def w Let_def split: prod.splits)
  show "incAndRollIfNecessary M rfl = (None, rfl\<lparr>curCount := curCount rfl + 1\<rparr>)"
    if "curCount rfl + 1 < countToRollOn rfl"
    using that by (simp add: incAndRollIfNecessary_def w Let_def)
qed

lemma incAndRollIfNecessary_rolls:
  assumes "count_in_range rfl" "countToRollOn rfl \<le> curCount rfl + 1"
  shows "incAndRollIfNecessary M rfl =
           (fst (rolling_roll M (embedded_RollingFileLogger rfl)),
            rfl\<lparr>embedded_RollingFileLogger := snd (rolling_roll M (embedded_RollingFileLogger rfl)),
                curCount := 0\<rparr>)"
proof -
  have w: "int64 (curCount rfl + 1) = curCount rfl + 1"
    using assms(1) by (intro int64_id) (simp_all add: count_in_range_def)
  show ?thesis
    using assms(2) by (simp add: incAndRollIfNecessary_def roll_def w Let_def split: prod.splits)
qed

lemma perform_in_range:
  assumes "count_in_range rfl"
  shows "count_in_range (snd (perform M c rfl))"
proof -
  obtain r r' where d: "delegate M c (embedded_RollingFileLogger rfl) = (r, r')" by fastforce
  show ?thesis
  proof (cases r)
    case (Some err)
    then show ?thesis using assms by (simp add: perform_eq d count_in_range_def)
  next
    case None
    let ?rfl = "rfl\<lparr>embedded_RollingFileLogger := r'\<rparr>"
    have inr: "count_in_range ?rfl" using assms by (simp add: count_in_range_def)
    have "count_in_range (snd (incAndRollIfNecessary M ?rfl))"
      using incAndRollIfNecessary_count(1,2) [OF inr, of M] inr
      by (auto simp: count_in_range_def)
    then show ?thesis by (simp add: perform_eq d None)
  qed
qed

lemma perform_all_in_range:
  "count_in_range rfl \<Longrightarrow> count_in_range (perform_all M cs rfl)"
  by (induction cs arbitrary: rfl) (simp_all add: perform_in_range)

lemma NewRollingFileLoggerWithSizeLimit_in_range:
  "NewRollingFileLoggerWithSizeLimit stamped fs path n = Inr rfl \<Longrightarrow> n < 2 ^ 63 \<Longrightarrow>
   count_in_range rfl"
  by (auto simp: NewRollingFileLoggerWithSizeLimit_def count_in_range_def
      split: if_splits sum.splits)

text \<open>
  C6. For each of the three log operations and any methods of the embedded logger: when
  the delegated call returns an error, the operation returns that error with the state
  the delegated call left, the count is unchanged, and \<open>roll\<close> has no part in the result
  (any other \<open>roll\<close> gives the same), so the count moves and rotation runs only after a
  delegated call that succeeded.
\<close>

theorem failed_write_skips_rotation:
  assumes "fst (delegate M c (embedded_RollingFileLogger rfl)) = Some err"
  shows "perform M c rfl =
           (Some err,
            rfl\<lparr>embedded_RollingFileLogger := snd (delegate M c (embedded_RollingFileLogger rfl))\<rparr>) \<and>
         curCount (snd (perform M c rfl)) = curCount rfl \<and>
         perform (M\<lparr>rolling_roll := other_roll\<rparr>) c rfl = perform M c rfl"
proof -
  obtain r' where d: "delegate M c (embedded_RollingFileLogger rfl) = (Some err, r')"
    using assms by (metis prod.collapse)
  have d': "delegate (M\<lparr>rolling_roll := other_roll\<rparr>) c = delegate M c"
    by (cases c) simp_all
  show ?thesis by (simp add: perform_eq d d')
qed

theorem failed_write_skips_rotation_witness:
  "fst (perform example_methods (CallLog (Some (plain_error ''boom''))) on_full_disk) =
     Some (AsErrorOf (SysError ''no space left on device'')) \<and>
   curCount (snd (perform example_methods (CallLog (Some (plain_error ''boom''))) on_full_disk)) = 2"
proof -
  have d: "fst (delegate example_methods (CallLog (Some (plain_error ''boom'')))
             (embedded_RollingFileLogger on_full_disk)) =
           Some (AsErrorOf (SysError ''no space left on device''))"
    by (simp add: example_methods_def on_full_disk_def full_disk_logger_def FileLogger_Log_def
        as_Loggable_def plain_error_def logNonSherlogError_def File_Write_def next_outcome_def
        split: prod.splits)
  have c: "curCount on_full_disk = 2" by (simp add: on_full_disk_def)
  show ?thesis
    using failed_write_skips_rotation [OF d] c by simp
qed

text \<open>
  C7. Between calls the count is at least 0 and below the threshold. From such a state,
  a log operation whose delegated call succeeds either adds one to the count, when that
  stays below the threshold, and returns \<^verbatim>\<open>nil\<close> with the logger the delegated call
  left; or, when the count reaches the threshold, rotates: the embedded logger is the
  one \<open>roll\<close> leaves, the count is 0 whatever \<open>roll\<close> returns, and the operation returns
  what \<open>roll\<close> returned. After any sequence of calls the count is again at least 0 and
  below the threshold. The constructor starts in such a state
  (\<open>NewRollingFileLoggerWithSizeLimit_in_range\<close>).
\<close>

theorem count_stays_below_threshold:
  assumes "count_in_range rfl"
  shows "(fst (delegate M c (embedded_RollingFileLogger rfl)) = None \<longrightarrow>
            perform M c rfl =
              (if curCount rfl + 1 < countToRollOn rfl
               then (None,
                     rfl\<lparr>embedded_RollingFileLogger :=
                           snd (delegate M c (embedded_RollingFileLogger rfl)),
                         curCount := curCount rfl + 1\<rparr>)
               else (fst (rolling_roll M (snd (delegate M c (embedded_RollingFileLogger rfl)))),
                     rfl\<lparr>embedded_RollingFileLogger :=
                           snd (rolling_roll M (snd (delegate M c (embedded_RollingFileLogger rfl)))),
                         curCount := 0\<rparr>))) \<and>
         count_in_range (perform_all M cs rfl)"
proof (intro conjI impI)
  show "count_in_range (perform_all M cs rfl)" using assms by (rule perform_all_in_range)
next
  assume ok: "fst (delegate M c (embedded_RollingFileLogger rfl)) = None"
  obtain r' where d: "delegate M c (embedded_RollingFileLogger rfl) = (None, r')"
    using ok by (metis prod.collapse)
  let ?rfl = "rfl\<lparr>embedded_RollingFileLogger := r'\<rparr>"
  have inr: "count_in_range ?rfl" using assms by (simp add: count_in_range_def)
  have p: "perform M c rfl = incAndRollIfNecessary M ?rfl" by (simp add: perform_eq d)
  show "perform M c rfl =
          (if curCount rfl + 1 < countToRollOn rfl
           then (None,
                 rfl\<lparr>embedded_RollingFileLogger :=
                       snd (delegate M c (embedded_RollingFileLogger rfl)),
                     curCount := curCount rfl + 1\<rparr>)
           else (fst (rolling_roll M (snd (delegate M c (embedded_RollingFileLogger rfl)))),
                 rfl\<lparr>embedded_RollingFileLogger :=
                       snd (rolling_roll M (snd (delegate M c (embedded_RollingFileLogger rfl)))),
                     curCount := 0\<rparr>))"
  proof (cases "curCount rfl + 1 < countToRollOn rfl")
    case True
    then show ?thesis
      using incAndRollIfNecessary_count(4) [OF inr, of M] by (simp add: p d)
  next
    case False
    then show ?thesis
      using incAndRollIfNecessary_rolls [OF inr, of M] by (simp add: p d)
  qed
qed

text \<open>
  The example: at count 2 of 3, a successful \<open>Log\<close> rotates. Where the new file opens,
  the logger is on the new, empty file under the stamped name and the count is 0; where
  the open fails, the operation returns that error and the count is 0 all the same.
\<close>

theorem count_stays_below_threshold_witness:
  "perform reopening_methods (CallLog (Some (plain_error ''boom''))) about_to_roll =
     (None,
      \<lparr>embedded_RollingFileLogger =
         \<lparr>embedded_FileLogger = \<lparr>logFilePath = ''app.log.12-00-00'', file' = fresh_file\<rparr>,
          baseFilePath = ''app.log''\<rparr>,
       countToRollOn = 3,
       curCount = 0\<rparr>) \<and>
   fst (perform example_methods (CallLog (Some (plain_error ''boom''))) about_to_roll) =
     Some (AsErrorOf (SysError ''too many open files'')) \<and>
   curCount (snd (perform example_methods (CallLog (Some (plain_error ''boom''))) about_to_roll)) = 0 \<and>
   count_in_range (perform_all example_methods
     [CallLog (Some (plain_error ''boom'')), CallLogNoStack None, CallLogJson (Some (plain_error ''bang''))]
     about_to_roll)"
proof -
  let ?c = "CallLog (Some (plain_error ''boom''))"
  let ?cs = "[CallLog (Some (plain_error ''boom'')), CallLogNoStack None,
          CallLogJson (Some (plain_error ''bang''))]"
  have inr: "count_in_range about_to_roll"
    by (simp add: count_in_range_def about_to_roll_def)
  have same: "rolling_Log reopening_methods = rolling_Log example_methods"
    by (simp add: reopening_methods_def)
  have ok: "fst (rolling_Log example_methods (Some (plain_error ''boom''))
             (embedded_RollingFileLogger about_to_roll)) = None"
    by (simp add: example_methods_def about_to_roll_def fresh_logger_def fresh_file_def
        FileLogger_Log_def as_Loggable_def plain_error_def logNonSherlogError_def File_Write_def
        next_outcome_def write_caused_by_def split: prod.splits)
  have c: "curCount about_to_roll = 2" "countToRollOn about_to_roll = 3"
    by (simp_all add: about_to_roll_def)
  have reopened: "rolling_roll reopening_methods (snd (rolling_Log example_methods
                (Some (plain_error ''boom'')) (embedded_RollingFileLogger about_to_roll))) =
      (None, \<lparr>embedded_FileLogger = \<lparr>logFilePath = ''app.log.12-00-00'', file' = fresh_file\<rparr>,
              baseFilePath = ''app.log''\<rparr>)"
    by (simp add: reopening_methods_def example_methods_def NewFileLogger_def about_to_roll_def
        split: prod.splits)
  have not_opened: "fst (rolling_roll example_methods (snd (rolling_Log example_methods
                (Some (plain_error ''boom'')) (embedded_RollingFileLogger about_to_roll)))) =
      Some (AsErrorOf (SysError ''too many open files''))"
    by (simp add: example_methods_def NewFileLogger_def split: prod.splits)
  have "perform reopening_methods ?c about_to_roll =
     (None,
      about_to_roll
        \<lparr>embedded_RollingFileLogger :=
           \<lparr>embedded_FileLogger = \<lparr>logFilePath = ''app.log.12-00-00'', file' = fresh_file\<rparr>,
            baseFilePath = ''app.log''\<rparr>,
         curCount := 0\<rparr>)"
    using count_stays_below_threshold [OF inr, of reopening_methods ?c ?cs] ok c
    by (simp add: same reopened)
  then have opened: "perform reopening_methods ?c about_to_roll =
     (None,
      \<lparr>embedded_RollingFileLogger =
         \<lparr>embedded_FileLogger = \<lparr>logFilePath = ''app.log.12-00-00'', file' = fresh_file\<rparr>,
          baseFilePath = ''app.log''\<rparr>,
       countToRollOn = 3,
       curCount = 0\<rparr>)"
    by (simp add: about_to_roll_def)
  have failed: "fst (perform example_methods ?c about_to_roll) =
       Some (AsErrorOf (SysError ''too many open files'')) \<and>
     curCount (snd (perform example_methods ?c about_to_roll)) = 0 \<and>
     count_in_range (perform_all example_methods ?cs about_to_roll)"
  proof -
    note T = count_stays_below_threshold [OF inr, of example_methods ?c ?cs]
    have range: "count_in_range (perform_all example_methods ?cs about_to_roll)"
      using T by blast
    have "fst (perform example_methods ?c about_to_roll) =
            Some (AsErrorOf (SysError ''too many open files'')) \<and>
          curCount (snd (perform example_methods ?c about_to_roll)) = 0"
      using conjunct1 [OF T] ok c not_opened by simp
    then show ?thesis using range by blast
  qed
  show ?thesis using opened failed by simp
qed

text \<open>
  C8. The constructor of the rolling logger with a threshold of 0 or less returns the
  validation error and no logger; with a threshold of 1 or more it fails exactly when
  the file cannot be opened, with that error, and otherwise returns the logger, its
  count 0.
\<close>

theorem NewRollingFileLoggerWithSizeLimit_validation:
  "(numMessagesPerFile \<le> 0 \<longrightarrow>
      NewRollingFileLoggerWithSizeLimit stamped fs path numMessagesPerFile =
        Inl (NewLeveledException ''log files must have room for at least 1 message.'' EnumError)) \<and>
   (1 \<le> numMessagesPerFile \<longrightarrow>
      NewRollingFileLoggerWithSizeLimit stamped fs path numMessagesPerFile =
        (case fs (stamped path) of
           Inl err \<Rightarrow> Inl (AsErrorOf err)
         | Inr fl \<Rightarrow>
             Inr \<lparr>embedded_RollingFileLogger =
                    \<lparr>embedded_FileLogger = \<lparr>logFilePath = stamped path, file' = fl\<rparr>,
                     baseFilePath = path\<rparr>,
                  countToRollOn = numMessagesPerFile,
                  curCount = 0\<rparr>))"
  by (simp add: NewRollingFileLoggerWithSizeLimit_def NewFileLogger_def split: sum.splits)

theorem NewRollingFileLoggerWithSizeLimit_validation_witness:
  "NewRollingFileLoggerWithSizeLimit (\<lambda>p. p @ ''.12-00-00'') (\<lambda>name. Inr fresh_file) ''app.log'' 0 =
     Inl (NewLeveledException ''log files must have room for at least 1 message.'' EnumError) \<and>
   NewRollingFileLoggerWithSizeLimit (\<lambda>p. p @ ''.12-00-00'') (\<lambda>name. Inr fresh_file) ''app.log'' (- 3) =
     Inl (NewLeveledException ''log files must have room for at least 1 message.'' EnumError) \<and>
   NewRollingFileLoggerWithSizeLimit (\<lambda>p. p @ ''.12-00-00'') (\<lambda>name. Inr fresh_file) ''app.log'' 1 =
     Inr \<lparr>embedded_RollingFileLogger =
            \<lparr>embedded_FileLogger = \<lparr>logFilePath = ''app.log.12-00-00'', file' = fresh_file\<rparr>,
             baseFilePath = ''app.log''\<rparr>,
          countToRollOn = 1,
          curCount = 0\<rparr>"
  using NewRollingFileLoggerWithSizeLimit_validation
          [of 0 "\<lambda>p. p @ ''.12-00-00''" "\<lambda>name. Inr fresh_file" "''app.log''"]
        NewRollingFileLoggerWithSizeLimit_validation
          [of "- 3" "\<lambda>p. p @ ''.12-00-00''" "\<lambda>name. Inr fresh_file" "''app.log''"]
        NewRollingFileLoggerWithSizeLimit_validation
          [of 1 "\<lambda>p. p @ ''.12-00-00''" "\<lambda>name. Inr fresh_file" "''app.log''"]
  by simp

end
